theory Spec2Isabelle
  imports Complex_Main "HOL-Library.AList" "HOL-Library.Sublist"
begin

section \<open>Python values held by the job registry\<close>

text \<open>
  The registry of \<^verbatim>\<open>services/memory_manager.py\<close> stores payloads of type \<^verbatim>\<open>Any\<close>.
  The code looks at a payload in four ways only: \<^verbatim>\<open>data is None\<close>, its truth value
  (\<^verbatim>\<open>if task:\<close>), \<^verbatim>\<open>isinstance(task, dict)\<close> and \<^verbatim>\<open>task.get("status", "unknown")\<close>,
  plus membership and truth value of four well-known keys. Payloads are modelled as
  JSON-like values; a dictionary is an association list in insertion order, which
  is the order a Python \<^verbatim>\<open>dict\<close> iterates in. Payloads are held by value: the
  in-place clearing of large fields is visible in the registry only, not through
  other references to the same object.
\<close>

datatype pyval =
    PNone
  | PBool bool
  | PInt int
  | PStr string
  | PList "pyval list"
  | PDict "(string \<times> pyval) list"

text \<open>Python's truth value of an object.\<close>

fun truthy :: "pyval \<Rightarrow> bool" where
  "truthy PNone = False"
| "truthy (PBool b) = b"
| "truthy (PInt i) = (i \<noteq> 0)"
| "truthy (PStr s) = (s \<noteq> [])"
| "truthy (PList xs) = (xs \<noteq> [])"
| "truthy (PDict d) = (d \<noteq> [])"

fun is_dict :: "pyval \<Rightarrow> bool" where
  "is_dict (PDict d) = True"
| "is_dict v = False"

text \<open>\<^verbatim>\<open>d.get(k)\<close>: the value, or \<^verbatim>\<open>None\<close> for a missing key.\<close>

definition dict_get :: "('k \<times> pyval) list \<Rightarrow> 'k \<Rightarrow> pyval" where
  "dict_get d k = (case map_of d k of None \<Rightarrow> PNone | Some v \<Rightarrow> v)"

text \<open>
  \<^verbatim>\<open>status = task.get("status", "unknown") if isinstance(task, dict) else "unknown"\<close>
\<close>

fun task_status :: "pyval \<Rightarrow> pyval" where
  "task_status (PDict d) =
     (case map_of d ''status'' of None \<Rightarrow> PStr ''unknown'' | Some v \<Rightarrow> v)"
| "task_status v = PStr ''unknown''"

section \<open>The registry: \<^verbatim>\<open>task_memory\<close> and \<^verbatim>\<open>memory_ttl\<close>\<close>

text \<open>
  The two module-level dictionaries. Time stamps are the readings of
  \<^verbatim>\<open>time.time()\<close>, taken as real numbers; every operation receives the reading it
  makes as its argument \<open>now\<close>. The lock \<^verbatim>\<open>memory_lock\<close> makes each operation
  atomic, so each is one state transformer.
\<close>

record registry =
  task_memory :: "(string \<times> pyval) list"
  memory_ttl :: "(string \<times> real) list"

definition empty_registry :: registry where
  "empty_registry = \<lparr>task_memory = [], memory_ttl = []\<rparr>"

definition TASK_TTL_RULES :: "(string \<times> int) list" where
  "TASK_TTL_RULES =
     [(''completed'', 300), (''processing'', 0), (''error'', 300), (''pending'', 0)]"

text \<open>\<^verbatim>\<open>TASK_TTL_RULES.get(status, 3600)\<close>\<close>

definition ttl_seconds :: "string \<Rightarrow> int" where
  "ttl_seconds status = (case map_of TASK_TTL_RULES status of None \<Rightarrow> 3600 | Some t \<Rightarrow> t)"

definition safe_set_task :: "real \<Rightarrow> string \<Rightarrow> pyval \<Rightarrow> string \<Rightarrow> registry \<Rightarrow> registry" where
  "safe_set_task now task_id data status s =
     (if data = PNone then
        s\<lparr>task_memory := AList.delete task_id (task_memory s),
          memory_ttl := AList.delete task_id (memory_ttl s)\<rparr>
      else
        (let tm = AList.update task_id data (task_memory s)
         in if ttl_seconds status > 0 then
              s\<lparr>task_memory := tm,
                memory_ttl := AList.update task_id (now + real_of_int (ttl_seconds status)) (memory_ttl s)\<rparr>
            else
              s\<lparr>task_memory := tm,
                memory_ttl := AList.delete task_id (memory_ttl s)\<rparr>))"

definition should_cleanup_by_status :: "pyval \<Rightarrow> bool" where
  "should_cleanup_by_status status =
     (if status \<in> set [PStr ''processing'', PStr ''pending''] then False
      else status \<in> set [PStr ''completed'', PStr ''error''])"

text \<open>
  \<^verbatim>\<open>safe_get_task\<close> returns the payload (\<^verbatim>\<open>None\<close> when there is none) and the
  registry after the lazy eviction.
\<close>

definition safe_get_task :: "real \<Rightarrow> string \<Rightarrow> registry \<Rightarrow> pyval \<times> registry" where
  "safe_get_task now task_id s =
     (case map_of (memory_ttl s) task_id of
        None \<Rightarrow> (dict_get (task_memory s) task_id, s)
      | Some expiry \<Rightarrow>
          (let task = dict_get (task_memory s) task_id
           in if now > expiry \<and> truthy task \<and> should_cleanup_by_status (task_status task) then
                (PNone, s\<lparr>task_memory := AList.delete task_id (task_memory s),
                          memory_ttl := AList.delete task_id (memory_ttl s)\<rparr>)
              else (dict_get (task_memory s) task_id, s)))"

text \<open>\<^verbatim>\<open>await safe_set_task(task_id, None)\<close>, the status left at its default.\<close>

definition safe_remove_task :: "real \<Rightarrow> string \<Rightarrow> registry \<Rightarrow> registry" where
  "safe_remove_task now task_id s = safe_set_task now task_id PNone ''processing'' s"

subsection \<open>The reclaimer\<close>

text \<open>Step 1 of \<^verbatim>\<open>cleanup_expired_tasks\<close>: the list \<^verbatim>\<open>expired_tasks\<close>.\<close>

definition is_expired :: "real \<Rightarrow> (string \<times> pyval) list \<Rightarrow> string \<times> real \<Rightarrow> bool" where
  "is_expired current_time tm p =
     (case p of (task_id, expiry_time) \<Rightarrow>
        current_time > expiry_time \<and>
        (let task = dict_get tm task_id
         in truthy task \<and> should_cleanup_by_status (task_status task)))"

definition expired_tasks :: "real \<Rightarrow> registry \<Rightarrow> string list" where
  "expired_tasks current_time s =
     map fst (filter (is_expired current_time (task_memory s)) (memory_ttl s))"

text \<open>
  Step 2: \<^verbatim>\<open>if key in task and task[key]: task[key] = None\<close>, for
  \<^verbatim>\<open>file_content\<close> and then for the three other large fields.
\<close>

definition clear_field :: "(string \<times> pyval) list \<Rightarrow> string \<Rightarrow> (string \<times> pyval) list" where
  "clear_field d key =
     (case map_of d key of
        None \<Rightarrow> d
      | Some v \<Rightarrow> if truthy v then AList.update key PNone d else d)"

fun clear_large_fields :: "pyval \<Rightarrow> pyval" where
  "clear_large_fields (PDict d) =
     PDict (foldl clear_field (clear_field d ''file_content'')
              [''telegram_text'', ''messages'', ''report_data''])"
| "clear_large_fields v = v"

text \<open>
  The body of the second loop, for one id: clear the large fields, then pop. The
  code clears the fields in the dictionary object itself; payloads being held by
  value here, the clearing shows in the entry being removed only, and not in
  another entry that holds the same object. No statement below speaks of the
  fields of a payload after a pass that evicts.
\<close>

definition evict_task :: "registry \<Rightarrow> string \<Rightarrow> registry" where
  "evict_task s task_id =
     (let task = dict_get (task_memory s) task_id;
          tm = (if truthy task \<and> is_dict task
                then AList.update task_id (clear_large_fields task) (task_memory s)
                else task_memory s)
      in s\<lparr>task_memory := AList.delete task_id tm,
           memory_ttl := AList.delete task_id (memory_ttl s)\<rparr>)"

text \<open>
  The whole pass under the lock, returning \<^verbatim>\<open>len(expired_tasks)\<close>. The garbage
  collection and the heap trim that follow outside the lock do not touch the two
  dictionaries.
\<close>

definition cleanup_expired_tasks :: "real \<Rightarrow> registry \<Rightarrow> nat \<times> registry" where
  "cleanup_expired_tasks current_time s =
     (let expired = expired_tasks current_time s
      in (length expired, foldl evict_task s expired))"

subsection \<open>Histories of registry operations\<close>

text \<open>
  The calls a client or the background loop can make, each with the clock reading
  it takes, and the registry they lead to from the empty dictionaries the module
  starts with.
\<close>

datatype registry_op =
    SetTask real string pyval string
  | GetTask real string
  | RemoveTask real string
  | CleanupExpired real

fun apply_op :: "registry \<Rightarrow> registry_op \<Rightarrow> registry" where
  "apply_op s (SetTask now task_id data status) = safe_set_task now task_id data status s"
| "apply_op s (GetTask now task_id) = snd (safe_get_task now task_id s)"
| "apply_op s (RemoveTask now task_id) = safe_remove_task now task_id s"
| "apply_op s (CleanupExpired now) = snd (cleanup_expired_tasks now s)"

definition run_ops :: "registry_op list \<Rightarrow> registry" where
  "run_ops ops = foldl apply_op empty_registry ops"

definition ttl_tracked_subset :: "registry \<Rightarrow> bool" where
  "ttl_tracked_subset s = (fst ` set (memory_ttl s) \<subseteq> fst ` set (task_memory s))"

section \<open>Cache admission in \<^verbatim>\<open>parse_and_generate_report\<close>\<close>

datatype error = ValueError | TypeError

text \<open>
  The environment variable \<^verbatim>\<open>TODAY_CACHE_MAX_AGE_SEC\<close>, by what
  \<^verbatim>\<open>int(os.getenv("TODAY_CACHE_MAX_AGE_SEC", "300"))\<close> makes of it: unset, the
  text of an integer, or a text \<^verbatim>\<open>int\<close> raises \<^verbatim>\<open>ValueError\<close> on.
\<close>

datatype env_setting = EnvUnset | EnvInteger int | EnvMalformed

definition today_cache_max_age :: "env_setting \<Rightarrow> error + int" where
  "today_cache_max_age env =
     (case env of EnvUnset \<Rightarrow> Inr 300 | EnvInteger n \<Rightarrow> Inr n | EnvMalformed \<Rightarrow> Inl ValueError)"

text \<open>
  What the decision reads of the file system: \<^verbatim>\<open>cache_path.exists()\<close>,
  \<^verbatim>\<open>cache_path.is_file()\<close> and \<^verbatim>\<open>cache_path.stat().st_mtime\<close>.
\<close>

record cache_path =
  path_exists :: bool
  path_is_file :: bool
  st_mtime :: real

text \<open>
  The value of \<^verbatim>\<open>use_cache\<close> before the lock is taken; \<^verbatim>\<open>use_cache_after_wait\<close>
  is computed by the same expression under the lock. \<open>period\<close> is
  \<^verbatim>\<open>data.get("period")\<close>, any JSON value.
\<close>

definition use_cache :: "env_setting \<Rightarrow> real \<Rightarrow> pyval \<Rightarrow> cache_path \<Rightarrow> error + bool" where
  "use_cache env now period cache_path =
     (if path_exists cache_path \<and> path_is_file cache_path then
        (if period = PStr ''today'' then
           (case today_cache_max_age env of
              Inl e \<Rightarrow> Inl e
            | Inr max_age \<Rightarrow> Inr (now - st_mtime cache_path \<le> real_of_int max_age))
         else Inr True)
      else Inr False)"

section \<open>The file retention guard (\<^verbatim>\<open>services/file_cleaner.py\<close>)\<close>

text \<open>\<^verbatim>\<open>path.split('/')\<close> and \<^verbatim>\<open>'/'.join(comps)\<close>\<close>

fun split_sep :: "string \<Rightarrow> string list" where
  "split_sep [] = [[]]"
| "split_sep (c # cs) =
     (if c = CHR ''/'' then [] # split_sep cs
      else (case split_sep cs of [] \<Rightarrow> [[c]] | x # xs \<Rightarrow> (c # x) # xs))"

fun join_sep :: "string list \<Rightarrow> string" where
  "join_sep [] = []"
| "join_sep [x] = x"
| "join_sep (x # y # ys) = x @ ''/'' @ join_sep (y # ys)"

text \<open>
  \<^verbatim>\<open>os.path.normpath\<close> of the standard library on POSIX: the body of its loop over
  the components, then the function.
\<close>

definition norm_step :: "nat \<Rightarrow> string list \<Rightarrow> string \<Rightarrow> string list" where
  "norm_step initial_slashes new_comps component =
     (if component = [] \<or> component = ''.'' then new_comps
      else if component \<noteq> ''..'' \<or> (initial_slashes = 0 \<and> new_comps = [])
              \<or> (new_comps \<noteq> [] \<and> last new_comps = ''..'')
        then new_comps @ [component]
      else if new_comps \<noteq> [] then butlast new_comps
      else new_comps)"

definition normpath :: "string \<Rightarrow> string" where
  "normpath path =
     (if path = [] then ''.''
      else
        (let initial_slashes =
               (if prefix ''/'' path
                then (if prefix ''//'' path \<and> \<not> prefix ''///'' path then 2 else 1)
                else (0::nat));
             comps = foldl (norm_step initial_slashes) [] (split_sep path);
             p = replicate initial_slashes CHR ''/'' @ join_sep comps
         in if p = [] then ''.'' else p))"

definition TARGET_DIRECTORY :: string where
  "TARGET_DIRECTORY = ''/data/raw_parses''"

definition FORBIDDEN_PATHS :: "string list" where
  "FORBIDDEN_PATHS = [''/data/temp'', ''/data/telegram_parser_session'']"

definition is_path_safe :: "string \<Rightarrow> bool" where
  "is_path_safe filepath =
     (let normalized_path = normpath filepath
      in if \<not> prefix TARGET_DIRECTORY normalized_path then False
         else if list_ex (\<lambda>forbidden. prefix forbidden normalized_path) FORBIDDEN_PATHS then False
         else True)"

text \<open>
  A path lies inside a directory when it is the directory or continues it after a
  separator. This is the notion the guard is documented with, not the test it makes.
\<close>

definition path_inside :: "string \<Rightarrow> string \<Rightarrow> bool" where
  "path_inside dir path = (path = dir \<or> prefix (dir @ ''/'') path)"







section \<open>The scrape serializer\<close>

text \<open>
  What a request handler does to the lock \<^verbatim>\<open>PARSER_LOCK\<close> and to the session of
  the scraping client, in program order. \<^verbatim>\<open>parse_telegram_channels\<close> opens the
  session with \<^verbatim>\<open>async with TelegramClient(...)\<close> and closes it on every way out;
  \<^verbatim>\<open>async with PARSER_LOCK\<close> releases the lock on every way out, an exception
  included.
\<close>

datatype action = AcquireLock | ReleaseLock | OpenSession | CloseSession

text \<open>
  \<^verbatim>\<open>routers/reports.py\<close>, \<^verbatim>\<open>parse_and_generate_report\<close>: no scrape when the cache is
  admitted; otherwise the lock, the second look at the cache, the scrape unless
  the cache is now admitted, and the release.
\<close>

definition parse_and_generate_report :: "bool \<Rightarrow> bool \<Rightarrow> action list" where
  "parse_and_generate_report use_cache_first use_cache_after_wait =
     (if use_cache_first then []
      else [AcquireLock]
           @ (if use_cache_after_wait then [] else [OpenSession, CloseSession])
           @ [ReleaseLock])"

text \<open>
  \<^verbatim>\<open>routers/parser.py\<close>: \<^verbatim>\<open>parse_channels\<close> awaits \<^verbatim>\<open>parse_telegram_channels\<close>
  directly, and \<^verbatim>\<open>parse_and_save\<close> does so unless it finds its archive file.
\<close>

definition parse_channels :: "action list" where
  "parse_channels = [OpenSession, CloseSession]"

definition parse_and_save :: "bool \<Rightarrow> action list" where
  "parse_and_save cache_found = (if cache_found then [] else [OpenSession, CloseSession])"

text \<open>
  The process: the lock, the number of sessions open against the scraping client,
  and what each request in flight has left to do. A step runs the next action of
  one request; a request waiting for a locked lock cannot step.
\<close>

record process =
  locked :: bool
  sessions :: nat
  requests :: "action list list"

definition start :: "action list list \<Rightarrow> process" where
  "start rs = \<lparr>locked = False, sessions = 0, requests = rs\<rparr>"

definition step :: "process \<Rightarrow> nat \<Rightarrow> process option" where
  "step c i =
     (if i \<ge> length (requests c) then None
      else
        (case requests c ! i of
           [] \<Rightarrow> None
         | a # rest \<Rightarrow>
             (let c' = c\<lparr>requests := (requests c)[i := rest]\<rparr>
              in case a of
                   AcquireLock \<Rightarrow> if locked c then None else Some (c'\<lparr>locked := True\<rparr>)
                 | ReleaseLock \<Rightarrow> Some (c'\<lparr>locked := False\<rparr>)
                 | OpenSession \<Rightarrow> Some (c'\<lparr>sessions := sessions c + 1\<rparr>)
                 | CloseSession \<Rightarrow> Some (c'\<lparr>sessions := sessions c - 1\<rparr>))))"

fun run_schedule :: "process \<Rightarrow> nat list \<Rightarrow> process option" where
  "run_schedule c [] = Some c"
| "run_schedule c (i # schedule) =
     (case step c i of None \<Rightarrow> None | Some c' \<Rightarrow> run_schedule c' schedule)"


text \<open>
  The state of a request of \<^verbatim>\<open>parse_and_generate_report\<close>, read off what it has
  left to do, and the invariant of a process that runs such requests only.
\<close>

definition holds_lock :: "action list \<Rightarrow> bool" where
  "holds_lock t =
     (t = [OpenSession, CloseSession, ReleaseLock] \<or> t = [CloseSession, ReleaseLock]
      \<or> t = [ReleaseLock])"

definition in_session :: "action list \<Rightarrow> bool" where
  "in_session t = (t = [CloseSession, ReleaseLock])"

definition outside_lock :: "action list \<Rightarrow> bool" where
  "outside_lock t =
     (t = [] \<or> t = [AcquireLock, OpenSession, CloseSession, ReleaseLock]
      \<or> t = [AcquireLock, ReleaseLock])"

definition serialized :: "process \<Rightarrow> bool" where
  "serialized c =
     (list_all (\<lambda>t. holds_lock t \<or> outside_lock t) (requests c) \<and>
      length (filter holds_lock (requests c)) = (if locked c then 1 else 0) \<and>
      sessions c = length (filter in_session (requests c)))"

section \<open>Salvaging a cut-off answer (\<^verbatim>\<open>services/report_generator.py\<close>)\<close>






















section \<open>Lookup after the registry operations\<close>

lemma ttl_seconds_values:
  "ttl_seconds ''completed'' = 300" "ttl_seconds ''error'' = 300"
  "ttl_seconds ''processing'' = 0" "ttl_seconds ''pending'' = 0"
  by (simp_all add: ttl_seconds_def TASK_TTL_RULES_def)

lemma ttl_seconds_other:
  assumes "status \<noteq> ''completed''" "status \<noteq> ''error''"
    and "status \<noteq> ''processing''" "status \<noteq> ''pending''"
  shows "ttl_seconds status = 3600"
  using assms by (simp add: ttl_seconds_def TASK_TTL_RULES_def)

lemma dict_get_cong: "map_of d k = map_of d' k \<Longrightarrow> dict_get d k = dict_get d' k"
  by (simp add: dict_get_def)

lemma delete_filter: "AList.delete k al = filter (\<lambda>p. fst p \<noteq> k) al"
  by (induction al) auto

lemma keys_delete: "fst ` set (AList.delete k al) = fst ` set al - {k}"
  by (auto simp add: delete_filter)

lemma evict_task_tm_other:
  "k \<noteq> task_id \<Longrightarrow> map_of (task_memory (evict_task s task_id)) k = map_of (task_memory s) k"
  by (simp add: evict_task_def Let_def delete_conv' update_conv')

lemma evict_task_ttl:
  "memory_ttl (evict_task s task_id) = AList.delete task_id (memory_ttl s)"
  by (simp add: evict_task_def Let_def)

lemma evict_task_tm_keys:
  "fst ` set (task_memory (evict_task s task_id)) = fst ` set (task_memory s) - {task_id}"
  by (simp add: evict_task_def Let_def keys_delete dom_update)

lemma foldl_evict_tm_other:
  "k \<notin> set ids \<Longrightarrow> map_of (task_memory (foldl evict_task s ids)) k = map_of (task_memory s) k"
  by (induction ids arbitrary: s) (simp_all add: evict_task_tm_other)

text \<open>What the second loop leaves of \<^verbatim>\<open>memory_ttl\<close>: the pairs of the ids it did not visit.\<close>

lemma foldl_evict_ttl:
  "memory_ttl (foldl evict_task s ids) = filter (\<lambda>p. fst p \<notin> set ids) (memory_ttl s)"
proof (induction ids arbitrary: s)
  case Nil
  then show ?case by simp
next
  case (Cons a ids)
  have "filter (\<lambda>p. fst p \<notin> set ids) (AList.delete a (memory_ttl s)) =
        filter (\<lambda>p. fst p \<notin> set (a # ids)) (memory_ttl s)"
    by (simp add: delete_filter conj_commute)
  with Cons show ?case by (simp add: evict_task_ttl)
qed

lemma foldl_evict_ttl_other:
  "k \<notin> set ids \<Longrightarrow> map_of (memory_ttl (foldl evict_task s ids)) k = map_of (memory_ttl s) k"
  by (induction ids arbitrary: s) (simp_all add: evict_task_ttl)

lemma foldl_evict_tm_keys:
  "fst ` set (task_memory (foldl evict_task s ids)) = fst ` set (task_memory s) - set ids"
  by (induction ids arbitrary: s) (auto simp add: evict_task_tm_keys)

lemma expired_tasks_mem:
  "task_id \<in> set (expired_tasks now s) \<longleftrightarrow>
     (\<exists>e. (task_id, e) \<in> set (memory_ttl s) \<and> is_expired now (task_memory s) (task_id, e))"
  by (force simp add: expired_tasks_def)

text \<open>
  A payload whose status is evictable is a dictionary with a \<^verbatim>\<open>status\<close> key, hence
  not empty, hence true: the test \<^verbatim>\<open>if task:\<close> never shields it.
\<close>

lemma status_evictable_truthy:
  "should_cleanup_by_status (task_status task) \<Longrightarrow> truthy task"
  by (cases task) (auto simp add: should_cleanup_by_status_def split: option.splits)

lemma not_protected_in_expired:
  assumes "map_of (task_memory s) task_id = Some task"
    and "task_status task = PStr ''processing'' \<or> task_status task = PStr ''pending''"
  shows "task_id \<notin> set (expired_tasks now s)"
  using assms
  by (auto simp add: expired_tasks_mem is_expired_def dict_get_def should_cleanup_by_status_def)

section \<open>Protected entries\<close>

text \<open>
  C1. An entry whose status is \<^verbatim>\<open>processing\<close> or \<^verbatim>\<open>pending\<close> is never removed by
  time-based reclamation, whatever the clock says. For the status the code reads,
  the \<^verbatim>\<open>status\<close> field of the payload: the id is not among those a pass of
  \<^verbatim>\<open>cleanup_expired_tasks\<close> evicts, it is still a key of \<^verbatim>\<open>task_memory\<close> after the
  pass, its expiry record is as before, and \<^verbatim>\<open>safe_get_task\<close> returns the entry
  and removes nothing. For the status given to \<^verbatim>\<open>safe_set_task\<close> with a payload
  other than \<^verbatim>\<open>None\<close>: the id has no expiry record, no pass at any later time
  evicts it, it is still a key of \<^verbatim>\<open>task_memory\<close> after the pass, and
  \<^verbatim>\<open>safe_get_task\<close> removes nothing. Only the ids are spoken of: what a pass does
  to the fields of a dictionary that an evicted entry shares with a kept one is
  not part of the statement.
\<close>

theorem protected_entry_survives_reclaim:
  "(map_of (task_memory s) task_id = Some task \<and>
    (task_status task = PStr ''processing'' \<or> task_status task = PStr ''pending'') \<longrightarrow>
      task_id \<notin> set (expired_tasks now s) \<and>
      task_id \<in> fst ` set (task_memory (snd (cleanup_expired_tasks now s))) \<and>
      map_of (memory_ttl (snd (cleanup_expired_tasks now s))) task_id = map_of (memory_ttl s) task_id \<and>
      safe_get_task now task_id s = (task, s)) \<and>
   (data \<noteq> PNone \<and> (status = ''processing'' \<or> status = ''pending'') \<longrightarrow>
      map_of (memory_ttl (safe_set_task now task_id data status s)) task_id = None \<and>
      task_id \<notin> set (expired_tasks now' (safe_set_task now task_id data status s)) \<and>
      task_id \<in> fst ` set (task_memory (snd (cleanup_expired_tasks now'
        (safe_set_task now task_id data status s)))) \<and>
      snd (safe_get_task now' task_id (safe_set_task now task_id data status s)) =
        safe_set_task now task_id data status s)"
proof (intro conjI impI)
  assume a: "map_of (task_memory s) task_id = Some task \<and>
    (task_status task = PStr ''processing'' \<or> task_status task = PStr ''pending'')"
  then show ne: "task_id \<notin> set (expired_tasks now s)"
    by (simp add: not_protected_in_expired)
  from a have "task_id \<in> fst ` set (task_memory s)"
    by (metis map_of_eq_None_iff option.distinct(1))
  with ne show "task_id \<in> fst ` set (task_memory (snd (cleanup_expired_tasks now s)))"
    by (simp add: cleanup_expired_tasks_def Let_def foldl_evict_tm_keys)
  from ne show "map_of (memory_ttl (snd (cleanup_expired_tasks now s))) task_id =
      map_of (memory_ttl s) task_id"
    by (simp add: cleanup_expired_tasks_def Let_def foldl_evict_ttl_other)
  from a show "safe_get_task now task_id s = (task, s)"
    by (auto simp add: safe_get_task_def dict_get_def Let_def should_cleanup_by_status_def
          split: option.splits)
next
  assume b: "data \<noteq> PNone \<and> (status = ''processing'' \<or> status = ''pending'')"
  let ?s = "safe_set_task now task_id data status s"
  from b show ttl: "map_of (memory_ttl ?s) task_id = None"
    by (auto simp add: safe_set_task_def Let_def update_conv' delete_conv' ttl_seconds_values)
  from b have "task_id \<in> fst ` set (task_memory ?s)"
    by (auto simp add: safe_set_task_def Let_def dom_update)
  moreover from ttl show ne: "task_id \<notin> set (expired_tasks now' ?s)"
    by (auto simp add: expired_tasks_mem map_of_eq_None_iff image_iff)
  ultimately show "task_id \<in> fst ` set (task_memory (snd (cleanup_expired_tasks now' ?s)))"
    by (simp add: cleanup_expired_tasks_def Let_def foldl_evict_tm_keys)
  from ttl show "snd (safe_get_task now' task_id ?s) = ?s"
    by (simp add: safe_get_task_def)
qed

theorem protected_entry_survives_reclaim_witness:
  "map_of (task_memory \<lparr>task_memory = [(''u1_123'', PDict [(''status'', PStr ''processing'')])],
                        memory_ttl = [(''u1_123'', 10)]\<rparr>) ''u1_123''
     = Some (PDict [(''status'', PStr ''processing'')]) \<and>
   task_status (PDict [(''status'', PStr ''processing'')]) = PStr ''processing'' \<and>
   ''u1_123'' \<in> fst ` set (task_memory (snd (cleanup_expired_tasks 1000
      \<lparr>task_memory = [(''u1_123'', PDict [(''status'', PStr ''processing'')])],
       memory_ttl = [(''u1_123'', 10)]\<rparr>))) \<and>
   ''u1_123'' \<in> fst ` set (task_memory (snd (cleanup_expired_tasks 1000
      (safe_set_task 0 ''u1_123'' (PDict [(''file_content'', PStr ''x'')]) ''pending''
         empty_registry))))"
  using protected_entry_survives_reclaim
    [where s = "\<lparr>task_memory = [(''u1_123'', PDict [(''status'', PStr ''processing'')])],
                   memory_ttl = [(''u1_123'', 10)]\<rparr>"
       and task_id = "''u1_123''" and task = "PDict [(''status'', PStr ''processing'')]"
       and now = 1000 and now' = 1000 and data = "PDict [(''file_content'', PStr ''x'')]"
       and status = "''pending''"]
    protected_entry_survives_reclaim
    [where s = empty_registry
       and task_id = "''u1_123''" and task = "PDict [(''status'', PStr ''processing'')]"
       and now = 0 and now' = 1000 and data = "PDict [(''file_content'', PStr ''x'')]"
       and status = "''pending''"]
  by simp

section \<open>Lazy eviction on read\<close>

text \<open>
  C2. For an entry whose payload is a dictionary with its own \<^verbatim>\<open>status\<close> field
  equal to \<^verbatim>\<open>completed\<close> or \<^verbatim>\<open>error\<close>, and whose expiry time stamp has passed,
  \<^verbatim>\<open>safe_get_task\<close> answers \<^verbatim>\<open>None\<close> (not found) and removes the entry and its
  expiry record on the spot, with no reclaim pass in between; a later read of the
  same id answers \<^verbatim>\<open>None\<close> again.
\<close>

theorem safe_get_task_lazy_eviction:
  assumes "map_of (memory_ttl s) task_id = Some expiry"
    and "now > expiry"
    and "map_of (task_memory s) task_id = Some task"
    and "task_status task = PStr ''completed'' \<or> task_status task = PStr ''error''"
  shows "fst (safe_get_task now task_id s) = PNone \<and>
         map_of (task_memory (snd (safe_get_task now task_id s))) task_id = None \<and>
         map_of (memory_ttl (snd (safe_get_task now task_id s))) task_id = None \<and>
         fst (safe_get_task now' task_id (snd (safe_get_task now task_id s))) = PNone"
proof -
  from assms(4) have ev: "should_cleanup_by_status (task_status task)"
    by (auto simp add: should_cleanup_by_status_def)
  then have "truthy task" by (rule status_evictable_truthy)
  with ev assms(1-3) have
    "safe_get_task now task_id s =
       (PNone, s\<lparr>task_memory := AList.delete task_id (task_memory s),
                 memory_ttl := AList.delete task_id (memory_ttl s)\<rparr>)"
    by (simp add: safe_get_task_def dict_get_def)
  then show ?thesis
    by (simp add: delete_conv' safe_get_task_def dict_get_def)
qed

theorem safe_get_task_lazy_eviction_witness:
  "fst (safe_get_task 1301 ''u1_123''
      \<lparr>task_memory = [(''u1_123'', PDict [(''status'', PStr ''completed''), (''file_content'', PStr ''x'')])],
       memory_ttl = [(''u1_123'', 1300)]\<rparr>) = PNone \<and>
   map_of (task_memory (snd (safe_get_task 1301 ''u1_123''
      \<lparr>task_memory = [(''u1_123'', PDict [(''status'', PStr ''completed''), (''file_content'', PStr ''x'')])],
       memory_ttl = [(''u1_123'', 1300)]\<rparr>))) ''u1_123'' = None"
proof -
  let ?task = "PDict [(''status'', PStr ''completed''), (''file_content'', PStr ''x'')]"
  let ?s = "\<lparr>task_memory = [(''u1_123'', ?task)], memory_ttl = [(''u1_123'', 1300::real)]\<rparr>"
  have h1: "map_of (memory_ttl ?s) ''u1_123'' = Some 1300" by simp
  have h2: "(1301::real) > 1300" by simp
  have h3: "map_of (task_memory ?s) ''u1_123'' = Some ?task" by simp
  have h4: "task_status ?task = PStr ''completed'' \<or> task_status ?task = PStr ''error''" by simp
  from safe_get_task_lazy_eviction [OF h1 h2 h3 h4] show ?thesis by simp
qed

text \<open>
  The status argument of \<^verbatim>\<open>safe_set_task\<close> only selects the time to live; it is
  not stored. A payload put as \<^verbatim>\<open>completed\<close> that carries no \<^verbatim>\<open>status\<close> field
  of its own reads as \<^verbatim>\<open>unknown\<close>: 700 seconds after its expiry time
  \<^verbatim>\<open>safe_get_task\<close> still returns it and removes nothing.
\<close>

theorem safe_get_task_serves_expired_completed_put:
  "map_of (memory_ttl (safe_set_task 1000 ''t'' (PDict [(''text'', PStr ''x'')]) ''completed''
      empty_registry)) ''t'' = Some 1300 \<and>
   safe_get_task 2000 ''t''
     (safe_set_task 1000 ''t'' (PDict [(''text'', PStr ''x'')]) ''completed'' empty_registry)
     = (PDict [(''text'', PStr ''x'')],
        \<lparr>task_memory = [(''t'', PDict [(''text'', PStr ''x'')])], memory_ttl = [(''t'', 1300)]\<rparr>)"
  by (simp add: safe_get_task_def safe_set_task_def empty_registry_def ttl_seconds_values
        dict_get_def should_cleanup_by_status_def Let_def)

text \<open>Nor does a reclaim pass evict it.\<close>

lemma cleanup_keeps_expired_completed_put:
  "cleanup_expired_tasks 2000 (safe_set_task 1000 ''t'' (PDict [(''text'', PStr ''x'')]) ''completed'' empty_registry)
     = (0, \<lparr>task_memory = [(''t'', PDict [(''text'', PStr ''x'')])], memory_ttl = [(''t'', 1300)]\<rparr>)"
  by (simp add: safe_set_task_def empty_registry_def ttl_seconds_values
        dict_get_def should_cleanup_by_status_def cleanup_expired_tasks_def expired_tasks_def
        is_expired_def Let_def)

section \<open>The expiry recorded by a put\<close>

text \<open>
  C6. \<^verbatim>\<open>safe_set_task\<close> with a payload other than \<^verbatim>\<open>None\<close> stores the payload and
  records the expiry given by the table: 300 seconds after now for the status
  \<^verbatim>\<open>completed\<close> or \<^verbatim>\<open>error\<close>, no expiry record at all for \<^verbatim>\<open>processing\<close> or
  \<^verbatim>\<open>pending\<close>, and 3600 seconds after now for any other status.
\<close>

theorem safe_set_task_expiry:
  "data \<noteq> PNone \<Longrightarrow>
   map_of (task_memory (safe_set_task now task_id data status s)) task_id = Some data \<and>
   map_of (memory_ttl (safe_set_task now task_id data status s)) task_id =
     (if status = ''completed'' \<or> status = ''error'' then Some (now + 300)
      else if status = ''processing'' \<or> status = ''pending'' then None
      else Some (now + 3600))"
  by (auto simp add: safe_set_task_def Let_def update_conv' delete_conv'
        ttl_seconds_values ttl_seconds_other)

theorem safe_set_task_expiry_witness:
  "PDict [(''status'', PStr ''completed'')] \<noteq> PNone \<and>
   map_of (memory_ttl (safe_set_task 1000 ''u1_123'' (PDict [(''status'', PStr ''completed'')])
      ''completed'' empty_registry)) ''u1_123'' = Some 1300 \<and>
   map_of (memory_ttl (safe_set_task 1000 ''u1_123'' (PDict [(''status'', PStr ''processing'')])
      ''processing'' \<lparr>task_memory = [], memory_ttl = [(''u1_123'', 5)]\<rparr>)) ''u1_123'' = None \<and>
   map_of (memory_ttl (safe_set_task 1000 ''u1_123'' (PDict [(''status'', PStr ''queued'')])
      ''queued'' empty_registry)) ''u1_123'' = Some 4600"
  using safe_set_task_expiry [of "PDict [(''status'', PStr ''completed'')]" 1000 "''u1_123''"
      "''completed''" empty_registry]
    safe_set_task_expiry [of "PDict [(''status'', PStr ''processing'')]" 1000 "''u1_123''"
      "''processing''" "\<lparr>task_memory = [], memory_ttl = [(''u1_123'', 5)]\<rparr>"]
    safe_set_task_expiry [of "PDict [(''status'', PStr ''queued'')]" 1000 "''u1_123''"
      "''queued''" empty_registry]
  by simp

section \<open>Removal\<close>

text \<open>
  C7. In every registry, \<^verbatim>\<open>safe_set_task\<close> with the payload \<^verbatim>\<open>None\<close> deletes the
  entry and its expiry record whatever the status argument, a \<^verbatim>\<open>safe_get_task\<close>
  of the id right after it answers \<^verbatim>\<open>None\<close> (not found), and
  \<^verbatim>\<open>safe_remove_task\<close> is that same put.
\<close>

theorem safe_set_task_none_removes:
  "map_of (task_memory (safe_set_task now task_id PNone status s)) task_id = None \<and>
   map_of (memory_ttl (safe_set_task now task_id PNone status s)) task_id = None \<and>
   safe_get_task now' task_id (safe_set_task now task_id PNone status s) =
     (PNone, safe_set_task now task_id PNone status s) \<and>
   safe_remove_task now task_id s = safe_set_task now task_id PNone status s"
  by (simp add: safe_set_task_def safe_remove_task_def safe_get_task_def delete_conv' dict_get_def)

section \<open>A second reclaim pass\<close>

text \<open>
  C8. After one pass of \<^verbatim>\<open>cleanup_expired_tasks\<close> at time \<open>now\<close>, a second pass at
  time \<open>now'\<close>, with no call in between and no expiry record running out between
  the two clock readings, returns the count 0 and leaves \<^verbatim>\<open>task_memory\<close> and
  \<^verbatim>\<open>memory_ttl\<close> exactly as they were.
\<close>

theorem cleanup_expired_tasks_idempotent:
  assumes "cleanup_expired_tasks now s = (n, s')"
    and "\<forall>(task_id, expiry) \<in> set (memory_ttl s'). now' > expiry \<longrightarrow> now > expiry"
  shows "cleanup_expired_tasks now' s' = (0, s')"
proof -
  from assms(1) have s': "s' = foldl evict_task s (expired_tasks now s)"
    by (auto simp add: cleanup_expired_tasks_def Let_def)
  have "\<not> is_expired now' (task_memory s') p" if p: "p \<in> set (memory_ttl s')" for p
  proof
    assume ex: "is_expired now' (task_memory s') p"
    obtain task_id expiry where pe: "p = (task_id, expiry)" by (cases p)
    from p pe s' have mem: "(task_id, expiry) \<in> set (memory_ttl s)"
      and notin: "task_id \<notin> set (expired_tasks now s)"
      by (simp_all add: foldl_evict_ttl)
    from notin s' have "map_of (task_memory s') task_id = map_of (task_memory s) task_id"
      by (simp add: foldl_evict_tm_other)
    then have dg: "dict_get (task_memory s') task_id = dict_get (task_memory s) task_id"
      by (rule dict_get_cong)
    from ex pe have "now' > expiry" by (simp add: is_expired_def)
    with assms(2) p pe have "now > expiry" by auto
    with ex pe dg have "is_expired now (task_memory s) (task_id, expiry)"
      by (simp add: is_expired_def)
    with mem have "task_id \<in> set (expired_tasks now s)"
      by (auto simp add: expired_tasks_mem)
    with notin show False by contradiction
  qed
  then have "expired_tasks now' s' = []"
    by (simp add: expired_tasks_def filter_empty_conv)
  then show ?thesis
    by (simp add: cleanup_expired_tasks_def)
qed

theorem cleanup_expired_tasks_idempotent_witness:
  "cleanup_expired_tasks 1301
     \<lparr>task_memory = [(''u1_123'', PDict [(''status'', PStr ''completed''), (''messages'', PList [PStr ''m''])]),
                     (''u2'', PDict [(''status'', PStr ''processing'')]),
                     (''u3'', PDict [(''status'', PStr ''error'')])],
      memory_ttl = [(''u1_123'', 1300), (''u3'', 2000)]\<rparr>
   = (1, \<lparr>task_memory = [(''u2'', PDict [(''status'', PStr ''processing'')]),
                          (''u3'', PDict [(''status'', PStr ''error'')])],
           memory_ttl = [(''u3'', 2000)]\<rparr>) \<and>
   cleanup_expired_tasks 1421
     \<lparr>task_memory = [(''u2'', PDict [(''status'', PStr ''processing'')]),
                     (''u3'', PDict [(''status'', PStr ''error'')])],
      memory_ttl = [(''u3'', 2000)]\<rparr>
   = (0, \<lparr>task_memory = [(''u2'', PDict [(''status'', PStr ''processing'')]),
                          (''u3'', PDict [(''status'', PStr ''error'')])],
           memory_ttl = [(''u3'', 2000)]\<rparr>)"
proof -
  let ?s = "\<lparr>task_memory = [(''u1_123'', PDict [(''status'', PStr ''completed''), (''messages'', PList [PStr ''m''])]),
                     (''u2'', PDict [(''status'', PStr ''processing'')]),
                     (''u3'', PDict [(''status'', PStr ''error'')])],
      memory_ttl = [(''u1_123'', 1300::real), (''u3'', 2000)]\<rparr>"
  let ?s' = "\<lparr>task_memory = [(''u2'', PDict [(''status'', PStr ''processing'')]),
                          (''u3'', PDict [(''status'', PStr ''error'')])],
           memory_ttl = [(''u3'', 2000::real)]\<rparr>"
  have h1: "cleanup_expired_tasks 1301 ?s = (1, ?s')"
    by (simp add: cleanup_expired_tasks_def expired_tasks_def is_expired_def dict_get_def
          should_cleanup_by_status_def evict_task_def clear_field_def Let_def)
  have h2: "\<forall>(task_id, expiry) \<in> set (memory_ttl ?s'). (1421::real) > expiry \<longrightarrow> 1301 > expiry"
    by simp
  from cleanup_expired_tasks_idempotent [OF h1 h2] h1 show ?thesis by simp
qed

section \<open>Expiry records belong to stored entries\<close>

lemma ttl_tracked_subset_empty: "ttl_tracked_subset empty_registry"
  by (simp add: ttl_tracked_subset_def empty_registry_def)

lemma ttl_tracked_subset_set:
  "ttl_tracked_subset s \<Longrightarrow> ttl_tracked_subset (safe_set_task now task_id data status s)"
  by (auto simp add: ttl_tracked_subset_def safe_set_task_def Let_def keys_delete dom_update)

lemma ttl_tracked_subset_get:
  "ttl_tracked_subset s \<Longrightarrow> ttl_tracked_subset (snd (safe_get_task now task_id s))"
  by (auto simp add: ttl_tracked_subset_def safe_get_task_def Let_def keys_delete
        split: option.splits)

lemma ttl_tracked_subset_remove:
  "ttl_tracked_subset s \<Longrightarrow> ttl_tracked_subset (safe_remove_task now task_id s)"
  by (simp add: safe_remove_task_def ttl_tracked_subset_set)

lemma ttl_tracked_subset_cleanup:
  assumes "ttl_tracked_subset s"
  shows "ttl_tracked_subset (snd (cleanup_expired_tasks now s))"
proof -
  have "fst ` set (filter (\<lambda>p. fst p \<notin> set ids) (memory_ttl s)) \<subseteq> fst ` set (memory_ttl s) - set ids"
    for ids by auto
  with assms show ?thesis
    by (auto simp add: ttl_tracked_subset_def cleanup_expired_tasks_def Let_def
          foldl_evict_ttl foldl_evict_tm_keys)
qed

lemma ttl_tracked_subset_apply_op:
  "ttl_tracked_subset s \<Longrightarrow> ttl_tracked_subset (apply_op s op)"
  by (cases op)
    (simp_all add: ttl_tracked_subset_set ttl_tracked_subset_get ttl_tracked_subset_remove
       ttl_tracked_subset_cleanup)

lemma ttl_tracked_subset_foldl:
  "ttl_tracked_subset s \<Longrightarrow> ttl_tracked_subset (foldl apply_op s ops)"
  by (induction ops arbitrary: s) (simp_all add: ttl_tracked_subset_apply_op)

text \<open>
  C10. Starting from the empty dictionaries, after any sequence of
  \<^verbatim>\<open>safe_set_task\<close> (removal by \<^verbatim>\<open>None\<close> included), \<^verbatim>\<open>safe_get_task\<close>,
  \<^verbatim>\<open>safe_remove_task\<close> and \<^verbatim>\<open>cleanup_expired_tasks\<close> calls, at any clock readings,
  every id with an expiry record in \<^verbatim>\<open>memory_ttl\<close> has an entry in \<^verbatim>\<open>task_memory\<close>.
\<close>

theorem ttl_keys_subset_task_keys:
  "fst ` set (memory_ttl (run_ops ops)) \<subseteq> fst ` set (task_memory (run_ops ops))"
  using ttl_tracked_subset_foldl [OF ttl_tracked_subset_empty, of ops]
  by (simp add: run_ops_def ttl_tracked_subset_def)

section \<open>The cache admission decision\<close>

text \<open>
  C3. The admission decision is: no reuse when the artifact is not an existing
  file; for the window \<^verbatim>\<open>today\<close>, reuse exactly when the age since the last
  modification is at most the maximal age, 300 seconds when
  \<^verbatim>\<open>TODAY_CACHE_MAX_AGE_SEC\<close> is unset and its value otherwise; for every other
  window, reuse whenever the file exists, whatever its age.
\<close>

theorem use_cache_decision:
  "(\<not> (path_exists f \<and> path_is_file f) \<longrightarrow> use_cache env now period f = Inr False) \<and>
   (path_exists f \<and> path_is_file f \<and> period = PStr ''today'' \<longrightarrow>
      use_cache EnvUnset now period f = Inr (now - st_mtime f \<le> 300) \<and>
      use_cache (EnvInteger max_age) now period f = Inr (now - st_mtime f \<le> real_of_int max_age)) \<and>
   (path_exists f \<and> path_is_file f \<and> period \<noteq> PStr ''today'' \<longrightarrow>
      use_cache env now period f = Inr True)"
  by (simp add: use_cache_def today_cache_max_age_def)

theorem use_cache_decision_witness:
  "use_cache (EnvInteger 300) 1000 (PStr ''today'')
     \<lparr>path_exists = True, path_is_file = True, st_mtime = 699\<rparr> = Inr False \<and>
   use_cache EnvUnset 1000 (PStr ''today'')
     \<lparr>path_exists = True, path_is_file = True, st_mtime = 900\<rparr> = Inr True \<and>
   use_cache EnvUnset 1000 (PStr ''today'')
     \<lparr>path_exists = True, path_is_file = True, st_mtime = 700\<rparr> = Inr True \<and>
   use_cache EnvUnset 1000000000 (PStr ''yesterday'')
     \<lparr>path_exists = True, path_is_file = True, st_mtime = 0\<rparr> = Inr True \<and>
   use_cache EnvUnset 1000 (PStr ''today'')
     \<lparr>path_exists = False, path_is_file = False, st_mtime = 999\<rparr> = Inr False"
  using use_cache_decision [of "\<lparr>path_exists = True, path_is_file = True, st_mtime = 699\<rparr>"
      "EnvInteger 300" 1000 "PStr ''today''" 300]
    use_cache_decision [of "\<lparr>path_exists = True, path_is_file = True, st_mtime = 900\<rparr>"
      EnvUnset 1000 "PStr ''today''" 300]
    use_cache_decision [of "\<lparr>path_exists = True, path_is_file = True, st_mtime = 700\<rparr>"
      EnvUnset 1000 "PStr ''today''" 300]
    use_cache_decision [of "\<lparr>path_exists = True, path_is_file = True, st_mtime = 0\<rparr>"
      EnvUnset 1000000000 "PStr ''yesterday''" 300]
    use_cache_decision [of "\<lparr>path_exists = False, path_is_file = False, st_mtime = 999\<rparr>"
      EnvUnset 1000 "PStr ''today''" 300]
  by simp

section \<open>The guard of the file cleanup\<close>



lemma is_path_safe_prefix:
  "is_path_safe p \<Longrightarrow> prefix TARGET_DIRECTORY (normpath p)"
  by (simp add: is_path_safe_def Let_def split: if_splits)

lemma normpath_sibling:
  "normpath ''/data/raw_parses_backup/old.json'' = ''/data/raw_parses_backup/old.json''"
  by (simp add: normpath_def norm_step_def Let_def)

text \<open>
  The test \<^verbatim>\<open>is_path_safe\<close> makes is \<^verbatim>\<open>startswith\<close> on the characters of the normal
  form. Called on its own with a path in a sibling directory whose name continues
  the name of the target directory, it accepts the path; \<^verbatim>\<open>cleanup_old_files\<close>
  offers it no such path.
\<close>

lemma is_path_safe_accepts_sibling_directory:
  "is_path_safe ''/data/raw_parses_backup/old.json'' \<and>
   \<not> path_inside TARGET_DIRECTORY (normpath ''/data/raw_parses_backup/old.json'')"
  by (simp add: is_path_safe_def normpath_sibling TARGET_DIRECTORY_def FORBIDDEN_PATHS_def
        path_inside_def)

subsection \<open>The paths \<^verbatim>\<open>cleanup_old_files\<close> is offered\<close>









lemma target_slashed: "TARGET_DIRECTORY = concat (map ((#) CHR ''/'') [''data'', ''raw_parses''])"
  by (simp add: TARGET_DIRECTORY_def)





section \<open>Requests that take the lock are serialized\<close>

lemma length_filter_update:
  "i < length xs \<Longrightarrow>
   length (filter P (xs[i := y])) + (if P (xs ! i) then 1 else 0) =
   length (filter P xs) + (if P y then 1 else 0)"
proof (induction xs arbitrary: i)
  case Nil
  then show ?case by simp
next
  case (Cons x xs)
  show ?case
  proof (cases i)
    case 0
    then show ?thesis by simp
  next
    case (Suc j)
    with Cons.prems have "j < length xs" by simp
    from Cons.IH [OF this] Suc show ?thesis by simp
  qed
qed

lemma list_all_update:
  "list_all P xs \<Longrightarrow> P y \<Longrightarrow> list_all P (xs[i := y])"
  by (induction xs arbitrary: i) (auto split: nat.splits)

lemma length_filter_mono:
  "(\<And>x. P x \<Longrightarrow> Q x) \<Longrightarrow> length (filter P xs) \<le> length (filter Q xs)"
  by (induction xs) auto

lemma serialized_sessions: "serialized c \<Longrightarrow> sessions c \<le> 1"
proof -
  assume s: "serialized c"
  have "length (filter in_session (requests c)) \<le> length (filter holds_lock (requests c))"
    by (rule length_filter_mono) (simp add: in_session_def holds_lock_def)
  with s show ?thesis by (simp add: serialized_def split: if_splits)
qed

lemma serialized_step:
  assumes "serialized c" and "step c i = Some c'"
  shows "serialized c'"
proof -
  from assms(2) have i: "i < length (requests c)"
    by (simp add: step_def split: if_splits)
  from assms(1) have all: "list_all (\<lambda>t. holds_lock t \<or> outside_lock t) (requests c)"
    and hl: "length (filter holds_lock (requests c)) = (if locked c then 1 else 0)"
    and ss: "sessions c = length (filter in_session (requests c))"
    by (simp_all add: serialized_def)
  from all i have t: "holds_lock (requests c ! i) \<or> outside_lock (requests c ! i)"
    by (simp add: list_all_length)
  from assms(2) i obtain a rest where ar: "requests c ! i = a # rest"
    by (auto simp add: step_def split: list.splits)
  note fh = length_filter_update [OF i, of holds_lock rest]
  note fs = length_filter_update [OF i, of in_session rest]
  from t ar consider
      (acq1) "a = AcquireLock" "rest = [OpenSession, CloseSession, ReleaseLock]"
    | (acq2) "a = AcquireLock" "rest = [ReleaseLock]"
    | (opn) "a = OpenSession" "rest = [CloseSession, ReleaseLock]"
    | (cls) "a = CloseSession" "rest = [ReleaseLock]"
    | (rel) "a = ReleaseLock" "rest = []"
    by (auto simp add: holds_lock_def outside_lock_def)
  then show ?thesis
  proof cases
    case acq1
    with assms(2) i ar have c': "c' = c\<lparr>requests := (requests c)[i := rest], locked := True\<rparr>"
      and nl: "\<not> locked c"
      by (auto simp add: step_def Let_def split: if_splits)
    from acq1 ar fh fs hl ss nl all show ?thesis
      by (simp add: serialized_def c' holds_lock_def in_session_def outside_lock_def
            list_all_update)
  next
    case acq2
    with assms(2) i ar have c': "c' = c\<lparr>requests := (requests c)[i := rest], locked := True\<rparr>"
      and nl: "\<not> locked c"
      by (auto simp add: step_def Let_def split: if_splits)
    from acq2 ar fh fs hl ss nl all show ?thesis
      by (simp add: serialized_def c' holds_lock_def in_session_def outside_lock_def
            list_all_update)
  next
    case opn
    with assms(2) i ar have c': "c' = c\<lparr>requests := (requests c)[i := rest], sessions := sessions c + 1\<rparr>"
      by (auto simp add: step_def Let_def)
    from opn ar fh fs hl ss all show ?thesis
      by (simp add: serialized_def c' holds_lock_def in_session_def outside_lock_def
            list_all_update)
  next
    case cls
    with assms(2) i ar have c': "c' = c\<lparr>requests := (requests c)[i := rest], sessions := sessions c - 1\<rparr>"
      by (auto simp add: step_def Let_def)
    from cls ar fh fs hl ss all show ?thesis
      by (simp add: serialized_def c' holds_lock_def in_session_def outside_lock_def
            list_all_update)
  next
    case rel
    with assms(2) i ar have c': "c' = c\<lparr>requests := (requests c)[i := rest], locked := False\<rparr>"
      by (auto simp add: step_def Let_def)
    from rel ar fh fs hl ss all show ?thesis
      by (simp add: serialized_def c' holds_lock_def in_session_def outside_lock_def
            list_all_update split: if_splits)
  qed
qed

lemma serialized_run_schedule:
  "serialized c \<Longrightarrow> run_schedule c schedule = Some c' \<Longrightarrow> serialized c'"
  by (induction schedule arbitrary: c) (auto split: option.splits dest: serialized_step)

lemma serialized_start:
  assumes "list_all (\<lambda>r. \<exists>a b. r = parse_and_generate_report a b) rs"
  shows "serialized (start rs)"
proof -
  have "holds_lock r = False \<and> in_session r = False \<and> outside_lock r"
    if "\<exists>a b. r = parse_and_generate_report a b" for r
    using that
    by (auto simp add: parse_and_generate_report_def holds_lock_def in_session_def outside_lock_def
          split: if_splits)
  with assms have "list_all (\<lambda>r. \<not> holds_lock r \<and> \<not> in_session r \<and> outside_lock r) rs"
    by (simp add: list_all_iff)
  then show ?thesis
    by (induction rs) (simp_all add: serialized_def start_def)
qed

text \<open>
  With requests of \<^verbatim>\<open>parse_and_generate_report\<close> only, whatever their cache
  outcomes and however they interleave, at most one session is open.
\<close>

lemma reports_requests_serialized:
  assumes "list_all (\<lambda>r. \<exists>a b. r = parse_and_generate_report a b) rs"
    and "run_schedule (start rs) schedule = Some c"
  shows "sessions c \<le> 1"
  using serialized_sessions [OF serialized_run_schedule [OF serialized_start [OF assms(1)] assms(2)]] .

section \<open>Scrapes outside the lock\<close>

text \<open>
  C9. Scrapes are meant to run one at a time, each under \<^verbatim>\<open>PARSER_LOCK\<close>. The
  handlers of \<^verbatim>\<open>routers/parser.py\<close> scrape without the lock: while a request of
  \<^verbatim>\<open>parse_and_generate_report\<close> is inside its scrape and holds the lock, a request
  of \<^verbatim>\<open>parse_channels\<close> opens a second session against the scraping client, so
  two sessions are open at once.
\<close>

theorem unlocked_scrape_overlaps:
  "run_schedule (start [parse_and_generate_report False False, parse_channels]) [0, 0, 1] =
     Some \<lparr>locked = True, sessions = 2,
            requests = [[CloseSession, ReleaseLock], [CloseSession]]\<rparr>"
  by (simp add: start_def parse_and_generate_report_def parse_channels_def step_def)

section \<open>The scanner on a cut-off answer\<close>



subsection \<open>One step of the scanner, by the character it reads\<close>












subsection \<open>Runs of the scanner\<close>












subsection \<open>The fallback on a concrete answer\<close>











subsection \<open>An answer with an earlier \<^verbatim>\<open>"items"\<close>\<close>






end
